theory Spec2Isabelle
  imports Main "HOL-Library.Word" "HOL-Library.Finite_Map"
begin

section \<open>Basic types of the state package\<close>

text \<open>
  A Go \<open>byte\<close> is an 8-bit word and a \<open>[]byte\<close> a list of them (a nil slice and an
  empty slice are both the empty list: the code below only ever reads their length).
  \<open>common.Hash\<close> is a 32-byte array, read here as one 256-bit word, and
  \<open>rawdb.WasmTarget\<close> is a Go string.
\<close>

type_synonym byte = "8 word"
type_synonym bytes = "byte list"
type_synonym hash = "256 word"
type_synonym WasmTarget = string

text \<open>Every \<open>errors.New\<close> and \<open>fmt.Errorf\<close> of the file is one constructor.\<close>

datatype error =
    ErrNotStylusProgram
  | ErrInconsistentTargets
  | ErrAsmMissingForTarget hash WasmTarget
  | ErrStorage string

text \<open>Run-time panics of Go that the modelled functions can reach.\<close>

datatype panic = NilMapAssignment | NilPointerDereference

section \<open>The Stylus prefix\<close>

definition stylusEOFMagic :: byte where
  "stylusEOFMagic = 0xEF"

definition stylusEOFMagicSuffix :: byte where
  "stylusEOFMagicSuffix = 0xF0"

definition stylusEOFVersion :: byte where
  "stylusEOFVersion = 0x00"

definition StylusDiscriminant :: bytes where
  "StylusDiscriminant = [stylusEOFMagic, stylusEOFMagicSuffix, stylusEOFVersion]"

text \<open>
  \<open>IsStylusProgram\<close>: the length test is against \<open>len(StylusDiscriminant)+1\<close>, then
  \<open>bytes.Equal(b[:3], StylusDiscriminant)\<close>.
\<close>

definition IsStylusProgram :: "bytes \<Rightarrow> bool" where
  "IsStylusProgram b =
     (if length b < length StylusDiscriminant + 1 then False
      else take 3 b = StylusDiscriminant)"

text \<open>
  \<open>StripStylusPrefix\<close> returns \<open>(b[4:], b[3], nil)\<close>, or the error. Both reads are in
  range once \<open>IsStylusProgram\<close> holds.
\<close>

definition StripStylusPrefix :: "bytes \<Rightarrow> error + (bytes \<times> byte)" where
  "StripStylusPrefix b =
     (if \<not> IsStylusProgram b then Inl ErrNotStylusProgram
      else Inr (drop 4 b, b ! 3))"

text \<open>\<open>NewStylusPrefix\<close>: a clone of the discriminant with the dictionary byte appended.\<close>

definition NewStylusPrefix :: "byte \<Rightarrow> bytes" where
  "NewStylusPrefix dictionary = StylusDiscriminant @ [dictionary]"

section \<open>Go maps\<close>

text \<open>
  A Go map value is either nil or a reference to a finite table. Reading a nil map
  behaves like reading an empty one (\<open>len\<close> is 0, an index finds nothing, \<open>range\<close>
  runs no iteration); assigning into a nil map panics. \<open>ActivatedAsmMap\<close> compares a
  map with nil, so the two are kept apart.
\<close>

datatype ('k, 'v) gomap = NilMap | GoMap "('k, 'v) fmap"

fun map_table :: "('k, 'v) gomap \<Rightarrow> ('k, 'v) fmap" where
  "map_table NilMap = fmempty"
| "map_table (GoMap m) = m"

definition map_len :: "('k, 'v) gomap \<Rightarrow> nat" where
  "map_len m = fcard (fmdom (map_table m))"

definition map_index :: "('k, 'v) gomap \<Rightarrow> 'k \<Rightarrow> 'v option" where
  "map_index m k = fmlookup (map_table m) k"

definition map_keys :: "('k, 'v) gomap \<Rightarrow> 'k fset" where
  "map_keys m = fmdom (map_table m)"

fun map_assign :: "('k, 'v) gomap \<Rightarrow> 'k \<Rightarrow> 'v \<Rightarrow> panic + ('k, 'v) gomap" where
  "map_assign NilMap k v = Inl NilMapAssignment"
| "map_assign (GoMap m) k v = Inr (GoMap (fmupd k v m))"

text \<open>
  \<open>for _, v := range m\<close> visits the entries in an order the runtime chooses. The entry
  a loop meets first is an argument of the model: \<open>None\<close> when the map has no entry,
  \<open>Some k\<close> for a key of the map.
\<close>

definition range_first :: "('k, 'v) gomap \<Rightarrow> 'k option \<Rightarrow> bool" where
  "range_first m first =
     (case first of None \<Rightarrow> map_keys m = {||} | Some k \<Rightarrow> k |\<in>| map_keys m)"

section \<open>Memory\<close>

text \<open>
  Objects reached through pointers (\<open>*big.Int\<close>, \<open>*lru.BasicLRU\<close>) live in a store:
  cells numbered from 0, of which those below \<open>next_free\<close> are allocated. A pointer is
  \<open>None\<close> (nil) or \<open>Some\<close> address; \<open>new\<close> and an escaping local take the next free cell.
\<close>

record 'a store =
  cells :: "nat \<Rightarrow> 'a"
  next_free :: nat

definition alloc :: "'a store \<Rightarrow> 'a \<Rightarrow> nat \<times> 'a store" where
  "alloc st v = (next_free st, \<lparr>cells = (cells st)(next_free st := v), next_free = Suc (next_free st)\<rparr>)"

definition load :: "'a store \<Rightarrow> nat \<Rightarrow> 'a" where
  "load st a = cells st a"

definition store_at :: "'a store \<Rightarrow> nat \<Rightarrow> 'a \<Rightarrow> 'a store" where
  "store_at st a v = st\<lparr>cells := (cells st)(a := v)\<rparr>"

definition allocated :: "'a store \<Rightarrow> nat option \<Rightarrow> bool" where
  "allocated st p = (case p of None \<Rightarrow> True | Some a \<Rightarrow> a < next_free st)"

section \<open>The journal\<close>

text \<open>
  Modelled from the spec: the journal type and its \<open>append\<close> are not in the sources.
  "Append(entry): adds one entry to the tail"; an activation entry "records that a Content
  Hash was newly inserted into the In-Flight Activation Layer" and has no account.
\<close>

datatype journalEntry = wasmActivation hash | CacheWasm hash | EvictWasm hash

record journal =
  entries :: "journalEntry list"

definition journal_append :: "journal \<Rightarrow> journalEntry \<Rightarrow> journal" where
  "journal_append j e = j\<lparr>entries := entries j @ [e]\<rparr>"

section \<open>The recency cache's LRU\<close>

text \<open>
  Modelled from the spec: \<open>lru.BasicLRU\<close> is not in the sources. The spec has "a
  fixed-capacity, least-recently-used-eviction set", "sized to a caller-supplied
  capacity", whose insert "returns true if hash was already present, in which case nothing
  changes; false if newly inserted, in which case it becomes the most-recently-used entry
  and may evict the least-recently-used entry if capacity is exceeded". The keys are kept
  most recently used first; the values are \<open>struct{}\<close> and carry nothing.
\<close>

record BasicLRU =
  lru_cap :: int
  lru_keys :: "hash list"

definition NewBasicLRU :: "int \<Rightarrow> BasicLRU" where
  "NewBasicLRU capacity = \<lparr>lru_cap = capacity, lru_keys = []\<rparr>"

definition lru_Get :: "BasicLRU \<Rightarrow> hash \<Rightarrow> bool" where
  "lru_Get c key = (key \<in> set (lru_keys c))"

definition lru_Add :: "BasicLRU \<Rightarrow> hash \<Rightarrow> BasicLRU" where
  "lru_Add c key =
     (let ks = key # removeAll key (lru_keys c)
      in c\<lparr>lru_keys := (if lru_cap c < int (length ks) then butlast ks else ks)\<rparr>)"

definition lru_Capacity :: "BasicLRU \<Rightarrow> int" where
  "lru_Capacity c = lru_cap c"

definition lru_Keys :: "BasicLRU \<Rightarrow> hash list" where
  "lru_Keys c = lru_keys c"

section \<open>The StateDB and its Arbitrum extra data\<close>

type_synonym ActivatedWasm = "(WasmTarget, bytes) gomap"

type_synonym address = "160 word"

record RecentWasms =
  cache :: "nat option"

record ArbitrumExtraData =
  unexpectedBalanceDelta :: "nat option"
  userWasms :: "(hash, ActivatedWasm) gomap"
  openWasmPages :: "16 word"
  everWasmPages :: "16 word"
  activatedWasms :: "(hash, ActivatedWasm) gomap"
  recentWasms :: RecentWasms
  arbTxFilter :: bool

text \<open>
  A state object as \<open>forEachStorage\<close> sees it: its dirty storage, and what \<open>getTrie\<close>
  followed by \<open>NodeIterator(nil)\<close> gives, an error of either or the leaves \<open>(Key, Value)\<close>
  in the order \<open>it.Next()\<close> yields them.
\<close>

datatype Trie = Trie (NodeIterator: "error + (bytes \<times> bytes) list")

record stateObject =
  dirtyStorage :: "(hash, hash) gomap"
  getTrie :: "error + Trie"

text \<open>
  Of the StateDB, the fields and collaborators the functions below use:
  \<open>db_ActivatedAsm\<close> is \<open>s.db.ActivatedAsm\<close>, \<open>getStateObject\<close> the method of that name
  and \<open>trie_GetKey\<close> is \<open>s.trie.GetKey\<close>.
\<close>

record StateDB =
  arbExtraData :: ArbitrumExtraData
  journal :: journal
  db_ActivatedAsm :: "WasmTarget \<Rightarrow> hash \<Rightarrow> bytes"
  getStateObject :: "address \<Rightarrow> stateObject option"
  trie_GetKey :: "bytes \<Rightarrow> bytes"

section \<open>Activating programs\<close>

text \<open>
  The consistency test of \<open>ActivateWasm\<close> against one previously activated map: the
  lengths differ, or a target of the previous map is not in the new one.
\<close>

definition inconsistent :: "ActivatedWasm \<Rightarrow> ActivatedWasm \<Rightarrow> bool" where
  "inconsistent asmMap previouslyActivated =
     (if map_len asmMap \<noteq> map_len previouslyActivated then True
      else fBex (map_keys previouslyActivated) (\<lambda>target. map_index asmMap target = None))"

text \<open>The part of \<open>ActivateWasm\<close> after the consistency loop.\<close>

definition ActivateWasm_add ::
  "StateDB \<Rightarrow> hash \<Rightarrow> ActivatedWasm \<Rightarrow> panic + (error option \<times> StateDB)" where
  "ActivateWasm_add s moduleHash asmMap =
     (case map_index (activatedWasms (arbExtraData s)) moduleHash of
        Some _ \<Rightarrow> Inr (None, s)
      | None \<Rightarrow>
          (case map_assign (activatedWasms (arbExtraData s)) moduleHash asmMap of
             Inl p \<Rightarrow> Inl p
           | Inr m \<Rightarrow>
               Inr (None,
                    s\<lparr>arbExtraData := (arbExtraData s)\<lparr>activatedWasms := m\<rparr>,
                      journal := journal_append (journal s) (wasmActivation moduleHash)\<rparr>)))"

text \<open>
  \<open>ActivateWasm\<close>. The loop over \<open>activatedWasms\<close> breaks after its first iteration, so
  it looks at the entry the range meets first. The result is the returned error (\<open>None\<close>
  for nil) with the state after the call.
\<close>

definition ActivateWasm ::
  "hash option \<Rightarrow> StateDB \<Rightarrow> hash \<Rightarrow> ActivatedWasm \<Rightarrow> panic + (error option \<times> StateDB)" where
  "ActivateWasm first s moduleHash asmMap =
     (case (case first of None \<Rightarrow> None
            | Some k \<Rightarrow> map_index (activatedWasms (arbExtraData s)) k) of
        Some previouslyActivated \<Rightarrow>
          (if inconsistent asmMap previouslyActivated
           then Inr (Some ErrInconsistentTargets, s)
           else ActivateWasm_add s moduleHash asmMap)
      | None \<Rightarrow> ActivateWasm_add s moduleHash asmMap)"

text \<open>
  The second loop of \<open>ActivatedAsmMap\<close>: each target is read from the database; a
  non-empty answer goes into the map, the others into the missing targets.
\<close>

primrec db_asms ::
  "(WasmTarget \<Rightarrow> hash \<Rightarrow> bytes) \<Rightarrow> hash \<Rightarrow> WasmTarget list \<Rightarrow>
   (WasmTarget, bytes) fmap \<Rightarrow> WasmTarget list \<Rightarrow> (WasmTarget, bytes) fmap \<times> WasmTarget list" where
  "db_asms db moduleHash [] asmMap missingTargets = (asmMap, missingTargets)"
| "db_asms db moduleHash (target # targets) asmMap missingTargets =
     (let asm = db target moduleHash
      in if 0 < length asm
         then db_asms db moduleHash targets (fmupd target asm asmMap) missingTargets
         else db_asms db moduleHash targets asmMap (missingTargets @ [target]))"

text \<open>
  \<open>ActivatedAsmMap\<close> returns the map, the missing targets and the error. Indexing
  \<open>activatedWasms\<close> at an absent hash gives the zero value, the nil map.
\<close>

definition ActivatedAsmMap ::
  "StateDB \<Rightarrow> WasmTarget list \<Rightarrow> hash \<Rightarrow> ActivatedWasm \<times> WasmTarget list \<times> error option" where
  "ActivatedAsmMap s targets moduleHash =
     (let asmMap = (case map_index (activatedWasms (arbExtraData s)) moduleHash of
                      None \<Rightarrow> NilMap | Some m \<Rightarrow> m)
      in if asmMap \<noteq> NilMap
         then (case find (\<lambda>target. map_index asmMap target = None) targets of
                 Some target \<Rightarrow> (NilMap, targets, Some (ErrAsmMissingForTarget moduleHash target))
               | None \<Rightarrow> (asmMap, [], None))
         else (case db_asms (db_ActivatedAsm s) moduleHash targets fmempty [] of
                 (found, missingTargets) \<Rightarrow> (GoMap found, missingTargets, None)))"

section \<open>Stylus pages\<close>

text \<open>
  Modelled from the spec: \<open>common.SaturatingUAdd\<close> and \<open>common.MaxInt\<close> are not in
  the sources. The counters "use saturating arithmetic (never overflow/wrap)", and
  "ever" is the "high-water mark".
\<close>

definition SaturatingUAdd :: "16 word \<Rightarrow> 16 word \<Rightarrow> 16 word" where
  "SaturatingUAdd a b = (if unat a + unat b \<le> 65535 then a + b else 65535)"

definition MaxInt :: "16 word \<Rightarrow> 16 word \<Rightarrow> 16 word" where
  "MaxInt a b = (if b < a then a else b)"

definition GetStylusPages :: "StateDB \<Rightarrow> 16 word \<times> 16 word" where
  "GetStylusPages s = (openWasmPages (arbExtraData s), everWasmPages (arbExtraData s))"

text \<open>\<open>AddStylusPages\<close> returns the previous counts, with the state after the call.\<close>

definition AddStylusPages :: "StateDB \<Rightarrow> 16 word \<Rightarrow> (16 word \<times> 16 word) \<times> StateDB" where
  "AddStylusPages s new =
     (case GetStylusPages s of
        (open, ever) \<Rightarrow>
          (let s1 = s\<lparr>arbExtraData := (arbExtraData s)\<lparr>openWasmPages := SaturatingUAdd open new\<rparr>\<rparr>;
               s2 = s1\<lparr>arbExtraData := (arbExtraData s1)
                      \<lparr>everWasmPages := MaxInt ever (openWasmPages (arbExtraData s1))\<rparr>\<rparr>
           in ((open, ever), s2)))"

section \<open>The unexpected balance delta\<close>

text \<open>
  \<open>new(big.Int).Set(x)\<close> allocates a big integer and copies the value of \<open>x\<close> into
  it; with \<open>x\<close> nil, \<open>Set\<close> dereferences nil. The call returns the new pointer.
\<close>

definition GetUnexpectedBalanceDelta :: "int store \<Rightarrow> StateDB \<Rightarrow> panic + (nat \<times> int store)" where
  "GetUnexpectedBalanceDelta mem s =
     (case unexpectedBalanceDelta (arbExtraData s) of
        None \<Rightarrow> Inl NilPointerDereference
      | Some x \<Rightarrow> Inr (alloc mem (load mem x)))"

section \<open>Iterating over an account's storage\<close>

text \<open>
  \<open>rlp.Split\<close> and \<open>common.BytesToHash\<close> are not in the sources; they are arguments
  of the model, \<open>rlp_Split\<close> giving the content of the value or the error. The callback
  is a Go closure: it gets and returns the state of whatever it has captured.
\<close>

record decoders =
  rlp_Split :: "bytes \<Rightarrow> error + bytes"
  BytesToHash :: "bytes \<Rightarrow> hash"

fun storage_loop ::
  "decoders \<Rightarrow> StateDB \<Rightarrow> stateObject \<Rightarrow> ('c \<Rightarrow> hash \<Rightarrow> hash \<Rightarrow> bool \<times> 'c) \<Rightarrow> 'c \<Rightarrow>
   (bytes \<times> bytes) list \<Rightarrow> error option \<times> 'c" where
  "storage_loop dec s so cb c [] = (None, c)"
| "storage_loop dec s so cb c ((itKey, itValue) # rest) =
     (let key = BytesToHash dec (trie_GetKey s itKey)
      in case map_index (dirtyStorage so) key of
           Some v \<Rightarrow>
             (case cb c key v of
                (False, c') \<Rightarrow> (None, c')
              | (True, c') \<Rightarrow> storage_loop dec s so cb c' rest)
         | None \<Rightarrow>
             (if 0 < length itValue
              then (case rlp_Split dec itValue of
                      Inl err \<Rightarrow> (Some err, c)
                    | Inr content \<Rightarrow>
                        (case cb c key (BytesToHash dec content) of
                           (False, c') \<Rightarrow> (None, c')
                         | (True, c') \<Rightarrow> storage_loop dec s so cb c' rest))
              else storage_loop dec s so cb c rest))"

definition forEachStorage ::
  "decoders \<Rightarrow> StateDB \<Rightarrow> address \<Rightarrow> ('c \<Rightarrow> hash \<Rightarrow> hash \<Rightarrow> bool \<times> 'c) \<Rightarrow> 'c \<Rightarrow> error option \<times> 'c" where
  "forEachStorage dec s addr cb c =
     (case getStateObject s addr of
        None \<Rightarrow> (None, c)
      | Some so \<Rightarrow>
          (case getTrie so of
             Inl err \<Rightarrow> (Some err, c)
           | Inr tr \<Rightarrow>
               (case NodeIterator tr of
                  Inl err \<Rightarrow> (Some err, c)
                | Inr leaves \<Rightarrow> storage_loop dec s so cb c leaves)))"

text \<open>
  A callback that records each pair it is given. Whether it asks to go on may depend on
  all it has seen so far and on the pair.
\<close>

definition recording ::
  "((hash \<times> hash) list \<Rightarrow> hash \<Rightarrow> hash \<Rightarrow> bool) \<Rightarrow> (hash \<times> hash) list \<Rightarrow> hash \<Rightarrow> hash \<Rightarrow>
   bool \<times> (hash \<times> hash) list" where
  "recording continue visited key v = (continue visited key v, visited @ [(key, v)])"

section \<open>Recently used programs\<close>

definition NewRecentWasms :: RecentWasms where
  "NewRecentWasms = \<lparr>cache = None\<rparr>"

text \<open>
  \<open>Insert\<close> has a value receiver: \<open>p\<close> is the callee's copy of the struct, and the
  assignment \<open>p.cache = &cache\<close> changes that copy only. What the call leaves behind is
  the memory; the caller's \<open>RecentWasms\<close> is what it was.
\<close>

definition Insert :: "BasicLRU store \<Rightarrow> RecentWasms \<Rightarrow> hash \<Rightarrow> 16 word \<Rightarrow> bool \<times> BasicLRU store" where
  "Insert mem p item retain =
     (case (case cache p of
              None \<Rightarrow> alloc mem (NewBasicLRU (uint retain))
            | Some a \<Rightarrow> (a, mem)) of
        (a, mem1) \<Rightarrow>
          (if lru_Get (load mem1 a) item then (True, mem1)
           else (False, store_at mem1 a (lru_Add (load mem1 a) item))))"

text \<open>\<open>Copy\<close>: a new LRU of the same capacity, filled with the keys in the order of \<open>Keys\<close>.\<close>

definition Copy :: "BasicLRU store \<Rightarrow> RecentWasms \<Rightarrow> RecentWasms \<times> BasicLRU store" where
  "Copy mem p =
     (case cache p of
        None \<Rightarrow> (NewRecentWasms, mem)
      | Some a \<Rightarrow>
          (case alloc mem (foldl lru_Add (NewBasicLRU (lru_Capacity (load mem a)))
                             (lru_Keys (load mem a))) of
             (b, mem1) \<Rightarrow> (\<lparr>cache = Some b\<rparr>, mem1)))"

text \<open>
  A sequence of \<open>Insert\<close> calls on the same \<open>RecentWasms\<close> value, each with its item
  and its \<open>retain\<close>; the result is the memory after the last call.
\<close>

primrec Inserts :: "BasicLRU store \<Rightarrow> RecentWasms \<Rightarrow> (hash \<times> 16 word) list \<Rightarrow> BasicLRU store" where
  "Inserts mem p [] = mem"
| "Inserts mem p (call # calls) = Inserts (snd (Insert mem p (fst call) (snd call))) p calls"

text \<open>
  What a \<open>RecentWasms\<close> holds: the keys of the LRU it points to (none when it is
  uninitialized) and that LRU's capacity.
\<close>

definition members :: "BasicLRU store \<Rightarrow> RecentWasms \<Rightarrow> hash set" where
  "members mem p = (case cache p of None \<Rightarrow> {} | Some a \<Rightarrow> set (lru_Keys (load mem a)))"

definition capacity :: "BasicLRU store \<Rightarrow> RecentWasms \<Rightarrow> int option" where
  "capacity mem p = (case cache p of None \<Rightarrow> None | Some a \<Rightarrow> Some (lru_Capacity (load mem a)))"

text \<open>
  The invariant of an LRU: no key twice, and no more keys than the capacity. It holds
  for a new LRU of capacity at least 0 and is kept by \<open>lru_Add\<close>.
\<close>

definition lru_inv :: "BasicLRU \<Rightarrow> bool" where
  "lru_inv c = (distinct (lru_keys c) \<and> int (length (lru_keys c)) \<le> lru_cap c)"

section \<open>Example states\<close>

text \<open>
  States at which the theorems below are instantiated. \<open>example_StateDB\<close> has an
  allocated, empty \<open>activatedWasms\<close>, an empty journal, both page counters at zero, a
  database without any asm and no state object; its balance delta is the big integer
  at address 0.
\<close>

definition example_StateDB :: StateDB where
  "example_StateDB =
     \<lparr>arbExtraData =
        \<lparr>unexpectedBalanceDelta = Some 0, userWasms = NilMap, openWasmPages = 0,
         everWasmPages = 0, activatedWasms = GoMap fmempty, recentWasms = \<lparr>cache = None\<rparr>,
         arbTxFilter = False\<rparr>,
      journal = \<lparr>entries = []\<rparr>,
      db_ActivatedAsm = (\<lambda>target moduleHash. []),
      getStateObject = (\<lambda>addr. None),
      trie_GetKey = (\<lambda>k. k)\<rparr>"

text \<open>The same state with another \<open>activatedWasms\<close>.\<close>

definition with_activated :: "StateDB \<Rightarrow> (hash, ActivatedWasm) gomap \<Rightarrow> StateDB" where
  "with_activated s m = s\<lparr>arbExtraData := (arbExtraData s)\<lparr>activatedWasms := m\<rparr>\<rparr>"

text \<open>
  Modelled from the spec: \<open>rlp.Split\<close> and \<open>common.BytesToHash\<close> are not in the
  sources. "Storage-trie leaf values are length-prefixed encoded records; the payload's
  content bytes are reinterpreted as a fixed-width hash value." The examples read the
  length prefix as RLP writes it. A first byte below \<open>0x80\<close> is its own content. A first
  byte below \<open>0xB8\<close> (a string) or from \<open>0xC0\<close> to \<open>0xF7\<close> (a list) holds the size of
  the content that follows it; a one-byte string that should have been a single byte is
  refused. The other first bytes give the number of bytes of a big-endian size, which
  must be at least 56 and begin with a non-zero byte. A content larger than the rest
  of the input is refused.
\<close>

definition rlp_readSize :: "bytes \<Rightarrow> nat \<Rightarrow> error + nat" where
  "rlp_readSize b slen =
     (if length b < slen then Inl (ErrStorage ''unexpected EOF'')
      else (let s = foldl (\<lambda>n x. 256 * n + unat x) 0 (take slen b)
            in if s < 56 \<or> b ! 0 = 0
               then Inl (ErrStorage ''rlp: non-canonical size information'')
               else Inr s))"

text \<open>The size of the tag and the size of the content.\<close>

definition rlp_readKind :: "bytes \<Rightarrow> error + (nat \<times> nat)" where
  "rlp_readKind buf =
     (case buf of
        [] \<Rightarrow> Inl (ErrStorage ''unexpected EOF'')
      | b # bs \<Rightarrow>
          (case (if b < 0x80 then Inr (0, 1)
                 else if b < 0xB8 then
                   (if unat b - 0x80 = 1 \<and> 1 < length buf \<and> buf ! 1 < 0x80
                    then Inl (ErrStorage ''rlp: non-canonical size information'')
                    else Inr (1, unat b - 0x80))
                 else if b < 0xC0 then
                   (case rlp_readSize bs (unat b - 0xB7) of
                      Inl err \<Rightarrow> Inl err
                    | Inr n \<Rightarrow> Inr (unat b - 0xB7 + 1, n))
                 else if b < 0xF8 then Inr (1, unat b - 0xC0)
                 else
                   (case rlp_readSize bs (unat b - 0xF7) of
                      Inl err \<Rightarrow> Inl err
                    | Inr n \<Rightarrow> Inr (unat b - 0xF7 + 1, n))) of
             Inl err \<Rightarrow> Inl err
           | Inr (tagsize, contentsize) \<Rightarrow>
               (if length buf - tagsize < contentsize
                then Inl (ErrStorage ''rlp: value size exceeds available input length'')
                else Inr (tagsize, contentsize))))"

text \<open>
  The decoders of the examples: the content of the first RLP value of the input, and
  the bytes as a big-endian number, of which a hash keeps the last 32 bytes.
\<close>

definition example_decoders :: decoders where
  "example_decoders =
     \<lparr>rlp_Split =
        (\<lambda>b. case rlp_readKind b of
                Inl err \<Rightarrow> Inl err
              | Inr (tagsize, contentsize) \<Rightarrow> Inr (take contentsize (drop tagsize b))),
      BytesToHash = (\<lambda>b. foldl (\<lambda>h x. 256 * h + ucast x) 0 (drop (length b - 32) b))\<rparr>"

text \<open>
  \<open>example_account\<close> has the dirty entry \<open>1: 0x11\<close> and two persisted leaves, in the
  order of their hashed keys: the first holds \<open>0xAB\<close> (as the string \<open>0x81 0xAB\<close>), the
  second \<open>0x0A\<close> (as a single byte). The hashed keys are stood for by two bytes each.
  \<open>example_preimages\<close> knows the first as the hash of key 2 and the second as the hash
  of key 1, so that the account persists \<open>1: 0x0A\<close> and \<open>2: 0xAB\<close>; for a hashed key it
  does not know it gives nil, as \<open>GetKey\<close> does.
\<close>

definition example_account :: stateObject where
  "example_account =
     \<lparr>dirtyStorage = GoMap (fmupd 1 0x11 fmempty),
      getTrie = Inr (Trie (Inr [([0x40, 0x57], [0x81, 0xAB]), ([0xB1, 0x0E], [0x0A])]))\<rparr>"

definition example_preimages :: "bytes \<Rightarrow> bytes" where
  "example_preimages hashed =
     (if hashed = [0xB1, 0x0E] then [1] else if hashed = [0x40, 0x57] then [2] else [])"

section \<open>Properties of the Stylus prefix\<close>

lemma length_StylusDiscriminant: "length StylusDiscriminant = 3"
  by (simp add: StylusDiscriminant_def)

lemma length_NewStylusPrefix: "length (NewStylusPrefix d) = 4"
  by (simp add: NewStylusPrefix_def length_StylusDiscriminant)

lemma IsStylusProgram_prefixed: "IsStylusProgram (NewStylusPrefix d @ p)"
  by (simp add: IsStylusProgram_def NewStylusPrefix_def length_StylusDiscriminant)

text \<open>
  C4, as the claim states it, fails: a blob of exactly four bytes that starts with the
  discriminant is accepted, so "at least 5 bytes" is not necessary.
\<close>

theorem IsStylusProgram_four_bytes_counterexample:
  "IsStylusProgram [0xEF, 0xF0, 0x00, 0x07] \<and> length [0xEF, 0xF0, 0x00, 0x07 :: byte] < 5"
  by (simp add: IsStylusProgram_def StylusDiscriminant_def stylusEOFMagic_def
      stylusEOFMagicSuffix_def stylusEOFVersion_def)

text \<open>
  C4 (amended): for every byte sequence \<open>b\<close>, \<open>IsStylusProgram b\<close> is true if and only if
  \<open>b\<close> is at least 4 bytes long and its first 3 bytes are \<open>0xEF, 0xF0, 0x00\<close>; in
  particular every \<open>b\<close> of length 3 or shorter yields false, whatever its contents.
\<close>

theorem IsStylusProgram_iff:
  "(IsStylusProgram b \<longleftrightarrow> (4 \<le> length b \<and> take 3 b = [0xEF, 0xF0, 0x00]))
   \<and> (length b \<le> 3 \<longrightarrow> \<not> IsStylusProgram b)"
  by (auto simp add: IsStylusProgram_def StylusDiscriminant_def stylusEOFMagic_def
      stylusEOFMagicSuffix_def stylusEOFVersion_def)

theorem IsStylusProgram_iff_witness:
  "IsStylusProgram [0xEF, 0xF0, 0x00, 0x01, 0x02] \<and> \<not> IsStylusProgram [0xEF, 0xF0, 0x00]
   \<and> \<not> IsStylusProgram [0x60, 0x80, 0x60, 0x40, 0x52]"
  using IsStylusProgram_iff [of "[0xEF, 0xF0, 0x00, 0x01, 0x02]"]
    IsStylusProgram_iff [of "[0xEF, 0xF0, 0x00]"]
    IsStylusProgram_iff [of "[0x60, 0x80, 0x60, 0x40, 0x52]"]
  by simp

text \<open>
  C5: for every dictionary byte \<open>d\<close> and payload \<open>p\<close>, stripping \<open>NewStylusPrefix d\<close>
  followed by \<open>p\<close> succeeds and returns the body \<open>p\<close> and the dictionary \<open>d\<close>.
\<close>

theorem StripStylusPrefix_NewStylusPrefix:
  "StripStylusPrefix (NewStylusPrefix d @ p) = Inr (p, d)"
proof -
  have "drop 4 (NewStylusPrefix d @ p) = p"
    by (simp add: length_NewStylusPrefix)
  moreover have "(NewStylusPrefix d @ p) ! 3 = d"
    by (simp add: NewStylusPrefix_def StylusDiscriminant_def)
  ultimately show ?thesis
    by (simp add: StripStylusPrefix_def IsStylusProgram_prefixed)
qed

section \<open>Properties of program activation\<close>

lemma map_len_keys: "map_len m = fcard (map_keys m)"
  by (simp add: map_len_def map_keys_def)

lemma map_index_None_iff: "map_index m k = None \<longleftrightarrow> k |\<notin>| map_keys m"
  by (simp add: map_index_def map_keys_def fmdom_notI fmdom_notD) (metis fmdom_notD fmdom_notI)

text \<open>
  The consistency test of \<open>ActivateWasm\<close> decides whether the two maps have the same
  targets: with equal lengths, containing every previous target means having the same
  key set.
\<close>

lemma inconsistent_iff: "inconsistent asmMap prev \<longleftrightarrow> map_keys asmMap \<noteq> map_keys prev"
proof (cases "map_len asmMap = map_len prev")
  case False
  then show ?thesis
    by (auto simp add: inconsistent_def map_len_keys)
next
  case True
  have "fBex (map_keys prev) (\<lambda>target. map_index asmMap target = None)
        \<longleftrightarrow> \<not> map_keys prev |\<subseteq>| map_keys asmMap"
    by (auto simp add: map_index_None_iff)
  moreover have "map_keys prev |\<subseteq>| map_keys asmMap \<longleftrightarrow> map_keys asmMap = map_keys prev"
    using True fcard_seteq [of "map_keys prev" "map_keys asmMap"]
    by (auto simp add: map_len_keys)
  ultimately show ?thesis
    using True by (simp add: inconsistent_def)
qed

lemma range_first_nonempty:
  assumes "range_first m first" and "map_keys m \<noteq> {||}"
  shows "\<exists>k prev. first = Some k \<and> map_index m k = Some prev"
  using assms
  by (cases first) (auto simp add: range_first_def map_keys_def map_index_def fmlookup_dom_iff)

text \<open>
  C1: in a state whose in-flight activations hold at least one bundle, a call of
  \<open>ActivateWasm\<close> with a bundle whose target set differs from the target set of the
  bundles already present returns the inconsistent-targets error and leaves the state,
  so both \<open>activatedWasms\<close> and the journal, exactly as it was. This holds for every
  entry the range over \<open>activatedWasms\<close> may meet first.
\<close>

theorem ActivateWasm_inconsistent_targets:
  assumes "range_first (activatedWasms (arbExtraData s)) first"
    and "map_keys (activatedWasms (arbExtraData s)) \<noteq> {||}"
    and "\<forall>h b. map_index (activatedWasms (arbExtraData s)) h = Some b \<longrightarrow> map_keys asmMap \<noteq> map_keys b"
  shows "ActivateWasm first s moduleHash asmMap = Inr (Some ErrInconsistentTargets, s)"
proof -
  from range_first_nonempty [OF assms(1,2)] obtain k prev
    where k: "first = Some k" "map_index (activatedWasms (arbExtraData s)) k = Some prev"
    by blast
  with assms(3) have "inconsistent asmMap prev"
    by (simp add: inconsistent_iff)
  with k show ?thesis
    by (simp add: ActivateWasm_def)
qed

theorem ActivateWasm_inconsistent_targets_witness:
  "ActivateWasm (Some 1)
     (with_activated example_StateDB (GoMap (fmupd 1 (GoMap (fmupd ''a'' [1] fmempty)) fmempty)))
     2 (GoMap (fmupd ''b'' [2] fmempty))
   = Inr (Some ErrInconsistentTargets,
       with_activated example_StateDB (GoMap (fmupd 1 (GoMap (fmupd ''a'' [1] fmempty)) fmempty)))"
  using ActivateWasm_inconsistent_targets
    [of "with_activated example_StateDB (GoMap (fmupd 1 (GoMap (fmupd ''a'' [1] fmempty)) fmempty))"
        "Some 1" "GoMap (fmupd ''b'' [2] fmempty)" 2]
  by (simp add: with_activated_def range_first_def map_keys_def map_index_def)

text \<open>
  C2, as the claim states it, fails: the consistency test comes before the test for
  the hash, so for a hash that is present a bundle with other targets gets the error
  instead of success.
\<close>

theorem ActivateWasm_present_counterexample:
  "map_index (activatedWasms (arbExtraData
      (with_activated example_StateDB (GoMap (fmupd 1 (GoMap (fmupd ''a'' [1] fmempty)) fmempty))))) 1
     = Some (GoMap (fmupd ''a'' [1] fmempty))
   \<and> ActivateWasm (Some 1)
     (with_activated example_StateDB (GoMap (fmupd 1 (GoMap (fmupd ''a'' [1] fmempty)) fmempty)))
     1 (GoMap (fmupd ''b'' [2] fmempty))
   = Inr (Some ErrInconsistentTargets,
       with_activated example_StateDB (GoMap (fmupd 1 (GoMap (fmupd ''a'' [1] fmempty)) fmempty)))"
  by (simp add: with_activated_def ActivateWasm_def inconsistent_def map_len_def map_keys_def
      map_index_def fcard_finsert_if)

text \<open>
  C2 (amended): for every hash already present in \<open>activatedWasms\<close> and every bundle
  argument, a further \<open>ActivateWasm\<close> call with that hash changes nothing: the state
  after the call is the state before it (no insertion, no overwrite, no journal entry).
  It returns success when the bundle has the same targets as the present bundle the
  consistency test compares it with, and the inconsistent-targets error otherwise.
\<close>

theorem ActivateWasm_present:
  assumes "range_first (activatedWasms (arbExtraData s)) first"
    and "map_index (activatedWasms (arbExtraData s)) moduleHash = Some b"
  shows "\<exists>k prev. first = Some k \<and> map_index (activatedWasms (arbExtraData s)) k = Some prev \<and>
           ActivateWasm first s moduleHash asmMap =
             Inr (if map_keys asmMap = map_keys prev then None else Some ErrInconsistentTargets, s)"
proof -
  from assms(2) have "map_keys (activatedWasms (arbExtraData s)) \<noteq> {||}"
    using map_index_None_iff [of "activatedWasms (arbExtraData s)" moduleHash] by auto
  from range_first_nonempty [OF assms(1) this] obtain k prev
    where k: "first = Some k" "map_index (activatedWasms (arbExtraData s)) k = Some prev"
    by blast
  with assms(2) have "ActivateWasm first s moduleHash asmMap =
      Inr (if map_keys asmMap = map_keys prev then None else Some ErrInconsistentTargets, s)"
    by (simp add: ActivateWasm_def ActivateWasm_add_def inconsistent_iff)
  with k show ?thesis
    by blast
qed

theorem ActivateWasm_present_witness:
  "ActivateWasm (Some 1)
     (with_activated example_StateDB (GoMap (fmupd 1 (GoMap (fmupd ''a'' [1] fmempty)) fmempty)))
     1 (GoMap (fmupd ''a'' [7, 7] fmempty))
   = Inr (None,
       with_activated example_StateDB (GoMap (fmupd 1 (GoMap (fmupd ''a'' [1] fmempty)) fmempty)))"
  using ActivateWasm_present
    [of "with_activated example_StateDB (GoMap (fmupd 1 (GoMap (fmupd ''a'' [1] fmempty)) fmempty))"
        "Some 1" 1 "GoMap (fmupd ''a'' [1] fmempty)" "GoMap (fmupd ''a'' [7, 7] fmempty)"]
  by (simp add: with_activated_def range_first_def map_keys_def map_index_def)

section \<open>Properties of the lookup of activated programs\<close>

lemma find_missing:
  assumes "t \<in> set targets" and "P t"
  shows "\<exists>u. find P targets = Some u"
  using assms by (induction targets) auto

lemma ActivatedAsmMap_missing:
  assumes "map_index (activatedWasms (arbExtraData s)) moduleHash = Some (GoMap b)"
    and "t \<in> set targets" and "map_index (GoMap b) t = None"
  shows "\<exists>u. ActivatedAsmMap s targets moduleHash =
           (NilMap, targets, Some (ErrAsmMissingForTarget moduleHash u))"
proof -
  from find_missing [of t targets "\<lambda>target. map_index (GoMap b) target = None"] assms(2,3)
  obtain u where "find (\<lambda>target. map_index (GoMap b) target = None) targets = Some u"
    by blast
  with assms(1) show ?thesis
    by (simp add: ActivatedAsmMap_def)
qed

lemma ActivatedAsmMap_complete:
  assumes "map_index (activatedWasms (arbExtraData s)) moduleHash = Some (GoMap b)"
    and "\<forall>t \<in> set targets. map_index (GoMap b) t \<noteq> None"
  shows "ActivatedAsmMap s targets moduleHash = (GoMap b, [], None)"
proof -
  from assms(2) have "find (\<lambda>target. map_index (GoMap b) target = None) targets = None"
    by (simp add: find_None_iff)
  with assms(1) show ?thesis
    by (simp add: ActivatedAsmMap_def)
qed

lemma ActivateWasm_add_fresh:
  assumes "map_index (activatedWasms (arbExtraData s)) H = None"
    and "ActivateWasm first s H bundle = Inr (None, s')"
  shows "map_index (activatedWasms (arbExtraData s')) H = Some bundle"
proof -
  from assms have add: "ActivateWasm_add s H bundle = Inr (None, s')"
    by (auto simp add: ActivateWasm_def split: option.splits if_splits)
  show ?thesis
  proof (cases "activatedWasms (arbExtraData s)")
    case NilMap
    with add assms(1) show ?thesis
      by (simp add: ActivateWasm_add_def)
  next
    case (GoMap m)
    with add assms(1) show ?thesis
      by (auto simp add: ActivateWasm_add_def map_index_def)
  qed
qed

text \<open>
  C3, as the claim states it, fails: \<open>ActivatedAsmMap\<close> tests the in-flight bundle
  against nil, not for presence. A hash activated with the nil map has a bundle in
  \<open>activatedWasms\<close> in which every target is absent, and the lookup goes to the database
  and returns what it finds there, without an error.
\<close>

theorem ActivatedAsmMap_nil_bundle_counterexample:
  "(case ActivateWasm None
           (example_StateDB\<lparr>db_ActivatedAsm := (\<lambda>target moduleHash. if target = ''a'' then [9] else [])\<rparr>)
           1 NilMap of
      Inr (None, s') \<Rightarrow>
        map_index (activatedWasms (arbExtraData s')) 1 = Some NilMap
        \<and> map_index NilMap ''c'' = None
        \<and> ActivatedAsmMap s' [''a'', ''c''] 1 = (GoMap (fmupd ''a'' [9] fmempty), [''c''], None)
    | _ \<Rightarrow> False)"
  by (simp add: ActivateWasm_def ActivateWasm_add_def example_StateDB_def
      map_index_def ActivatedAsmMap_def journal_append_def)

text \<open>
  C3 (amended): for every hash whose in-flight bundle is a non-nil map and every
  requested target list with at least one target absent from that bundle,
  \<open>ActivatedAsmMap\<close> returns the nil map, the whole requested list as missing and an
  error. In particular, after a successful activation of a hash \<open>H\<close> that was not
  present with the bundle \<open>{A: a1, B: b1}\<close>, the lookup of \<open>[A, B]\<close> returns that bundle,
  no missing target and no error, and the lookup of \<open>[A, C]\<close> returns the nil map,
  \<open>[A, C]\<close> and an error.
\<close>

theorem ActivatedAsmMap_in_flight:
  "(\<forall>b t. map_index (activatedWasms (arbExtraData s)) moduleHash = Some (GoMap b) \<longrightarrow>
       t \<in> set targets \<longrightarrow> map_index (GoMap b) t = None \<longrightarrow>
       (\<exists>u. ActivatedAsmMap s targets moduleHash =
              (NilMap, targets, Some (ErrAsmMissingForTarget moduleHash u))))
   \<and> (A \<noteq> B \<longrightarrow> C \<noteq> A \<longrightarrow> C \<noteq> B \<longrightarrow>
      map_index (activatedWasms (arbExtraData s)) H = None \<longrightarrow>
      ActivateWasm first s H (GoMap (fmupd A a1 (fmupd B b1 fmempty))) = Inr (None, s') \<longrightarrow>
        ActivatedAsmMap s' [A, B] H = (GoMap (fmupd A a1 (fmupd B b1 fmempty)), [], None)
        \<and> ActivatedAsmMap s' [A, C] H = (NilMap, [A, C], Some (ErrAsmMissingForTarget H C)))"
proof (intro conjI allI impI)
  fix b t
  assume "map_index (activatedWasms (arbExtraData s)) moduleHash = Some (GoMap b)"
    and "t \<in> set targets" and "map_index (GoMap b) t = None"
  then show "\<exists>u. ActivatedAsmMap s targets moduleHash =
      (NilMap, targets, Some (ErrAsmMissingForTarget moduleHash u))"
    by (rule ActivatedAsmMap_missing)
next
  assume "map_index (activatedWasms (arbExtraData s)) H = None"
    and "ActivateWasm first s H (GoMap (fmupd A a1 (fmupd B b1 fmempty))) = Inr (None, s')"
  then have "map_index (activatedWasms (arbExtraData s')) H
      = Some (GoMap (fmupd A a1 (fmupd B b1 fmempty)))"
    by (rule ActivateWasm_add_fresh)
  then show "ActivatedAsmMap s' [A, B] H = (GoMap (fmupd A a1 (fmupd B b1 fmempty)), [], None)"
    by (rule ActivatedAsmMap_complete) (simp add: map_index_def)
next
  assume ne: "C \<noteq> A" "C \<noteq> B"
  assume "map_index (activatedWasms (arbExtraData s)) H = None"
    and "ActivateWasm first s H (GoMap (fmupd A a1 (fmupd B b1 fmempty))) = Inr (None, s')"
  then have "map_index (activatedWasms (arbExtraData s')) H
      = Some (GoMap (fmupd A a1 (fmupd B b1 fmempty)))"
    by (rule ActivateWasm_add_fresh)
  with ne show "ActivatedAsmMap s' [A, C] H = (NilMap, [A, C], Some (ErrAsmMissingForTarget H C))"
    by (simp add: ActivatedAsmMap_def map_index_def)
qed

theorem ActivatedAsmMap_in_flight_witness:
  "\<exists>s'. ActivateWasm None example_StateDB 1 (GoMap (fmupd ''a'' [1] (fmupd ''b'' [2] fmempty)))
          = Inr (None, s')
     \<and> ActivatedAsmMap s' [''a'', ''b''] 1
          = (GoMap (fmupd ''a'' [1] (fmupd ''b'' [2] fmempty)), [], None)
     \<and> ActivatedAsmMap s' [''a'', ''c''] 1
          = (NilMap, [''a'', ''c''], Some (ErrAsmMissingForTarget 1 ''c''))
     \<and> (\<exists>u. ActivatedAsmMap s' [''c'', ''a''] 1
          = (NilMap, [''c'', ''a''], Some (ErrAsmMissingForTarget 1 u)))"
proof -
  obtain s' where act: "ActivateWasm None example_StateDB 1
      (GoMap (fmupd ''a'' [1] (fmupd ''b'' [2] fmempty))) = Inr (None, s')"
    by (simp add: ActivateWasm_def ActivateWasm_add_def example_StateDB_def map_index_def)
  have absent: "map_index (activatedWasms (arbExtraData example_StateDB)) 1 = None"
    by (simp add: example_StateDB_def map_index_def)
  have stored: "map_index (activatedWasms (arbExtraData s')) 1
      = Some (GoMap (fmupd ''a'' [1] (fmupd ''b'' [2] fmempty)))"
    using act by (auto simp add: ActivateWasm_def ActivateWasm_add_def example_StateDB_def map_index_def)
  have "ActivatedAsmMap s' [''a'', ''b''] 1
          = (GoMap (fmupd ''a'' [1] (fmupd ''b'' [2] fmempty)), [], None)
     \<and> ActivatedAsmMap s' [''a'', ''c''] 1
          = (NilMap, [''a'', ''c''], Some (ErrAsmMissingForTarget 1 ''c''))"
    using ActivatedAsmMap_in_flight [of example_StateDB 1 "[]" "''a''" "''b''" "''c''" 1 None "[1]" "[2]" s']
      act absent by simp
  moreover have "\<exists>u. ActivatedAsmMap s' [''c'', ''a''] 1
          = (NilMap, [''c'', ''a''], Some (ErrAsmMissingForTarget 1 u))"
    using ActivatedAsmMap_in_flight [of s' 1 "[''c'', ''a'']"] stored
    by (simp add: map_index_def)
  ultimately show ?thesis
    using act by blast
qed

section \<open>Properties of the page counters\<close>

lemma unat_SaturatingUAdd: "unat (SaturatingUAdd a b) = min (unat a + unat b) 65535"
  by (simp add: SaturatingUAdd_def unat_word_ariths min_def)

lemma MaxInt_max: "MaxInt a b = max a b"
  by (auto simp add: MaxInt_def max_def)

lemma AddStylusPages_eq:
  "AddStylusPages s new =
     ((openWasmPages (arbExtraData s), everWasmPages (arbExtraData s)),
      s\<lparr>arbExtraData := (arbExtraData s)
          \<lparr>openWasmPages := SaturatingUAdd (openWasmPages (arbExtraData s)) new,
           everWasmPages := MaxInt (everWasmPages (arbExtraData s))
                              (SaturatingUAdd (openWasmPages (arbExtraData s)) new)\<rparr>\<rparr>)"
  by (simp add: AddStylusPages_def GetStylusPages_def)

text \<open>
  C8: from open = 0 and ever = 0, \<open>AddStylusPages 3\<close> followed by \<open>AddStylusPages 5\<close>
  gives open = 8 and ever = 8. From every state, \<open>AddStylusPages\<close> returns the counts
  as they were before the call, the new open counter is the sum capped at 65535 (it never
  wraps), and the new ever counter is the maximum of its previous value and the new
  open counter.
\<close>

theorem AddStylusPages_saturating:
  "(openWasmPages (arbExtraData s) = 0 \<and> everWasmPages (arbExtraData s) = 0 \<longrightarrow>
      fst (AddStylusPages s 3) = (0, 0)
      \<and> fst (AddStylusPages (snd (AddStylusPages s 3)) 5) = (3, 3)
      \<and> GetStylusPages (snd (AddStylusPages (snd (AddStylusPages s 3)) 5)) = (8, 8))
   \<and> fst (AddStylusPages s new) = (openWasmPages (arbExtraData s), everWasmPages (arbExtraData s))
   \<and> unat (openWasmPages (arbExtraData (snd (AddStylusPages s new))))
       = min (unat (openWasmPages (arbExtraData s)) + unat new) 65535
   \<and> everWasmPages (arbExtraData (snd (AddStylusPages s new)))
       = max (everWasmPages (arbExtraData s)) (openWasmPages (arbExtraData (snd (AddStylusPages s new))))"
proof -
  have "SaturatingUAdd 0 3 = 3" "SaturatingUAdd 3 5 = 8" "MaxInt 0 3 = 3" "MaxInt 3 8 = 8"
    by (simp_all add: SaturatingUAdd_def MaxInt_def)
  then show ?thesis
    by (simp add: AddStylusPages_eq GetStylusPages_def unat_SaturatingUAdd MaxInt_max)
qed

theorem AddStylusPages_saturating_witness:
  "GetStylusPages (snd (AddStylusPages (snd (AddStylusPages example_StateDB 3)) 5)) = (8, 8)
   \<and> unat (openWasmPages (arbExtraData (snd (AddStylusPages
        (snd (AddStylusPages (snd (AddStylusPages example_StateDB 3)) 5)) 65530)))) = 65535"
  using AddStylusPages_saturating [of example_StateDB 0]
    AddStylusPages_saturating [of "snd (AddStylusPages (snd (AddStylusPages example_StateDB 3)) 5)" 65530]
  by (simp add: example_StateDB_def GetStylusPages_def)

section \<open>Properties of the unexpected balance delta\<close>

text \<open>
  C10: with the balance delta an allocated big integer, \<open>GetUnexpectedBalanceDelta\<close>
  returns a pointer to a big integer that was not allocated before the call, is not
  the stored delta and holds the delta's value. Writing any value through the returned
  pointer leaves the stored delta as it was, and a second call on the unchanged state
  returns another fresh pointer to an equal value.
\<close>

theorem GetUnexpectedBalanceDelta_fresh_copy:
  assumes "unexpectedBalanceDelta (arbExtraData s) = Some x" and "x < next_free mem"
  shows "\<exists>r mem1. GetUnexpectedBalanceDelta mem s = Inr (r, mem1)
     \<and> r \<noteq> x \<and> \<not> r < next_free mem
     \<and> load mem1 r = load mem x
     \<and> (\<forall>v. load (store_at mem1 r v) x = load mem x)
     \<and> (\<exists>r2 mem2. GetUnexpectedBalanceDelta mem1 s = Inr (r2, mem2) \<and> r2 \<noteq> r
           \<and> load mem2 r2 = load mem1 r)"
  using assms
  by (auto simp add: GetUnexpectedBalanceDelta_def alloc_def load_def store_at_def)

theorem GetUnexpectedBalanceDelta_fresh_copy_witness:
  "\<exists>r mem1. GetUnexpectedBalanceDelta \<lparr>cells = (\<lambda>a. 42), next_free = 1\<rparr> example_StateDB = Inr (r, mem1)
     \<and> r \<noteq> 0 \<and> load mem1 r = 42 \<and> load (store_at mem1 r 7) 0 = 42"
  using GetUnexpectedBalanceDelta_fresh_copy [of example_StateDB 0 "\<lparr>cells = (\<lambda>a. 42), next_free = 1\<rparr>"]
  by (auto simp add: example_StateDB_def load_def)

section \<open>Properties of the recently used programs\<close>

text \<open>
  C6: the claim does not hold of the code. Starting from the uninitialized cache,
  \<open>Insert\<close> allocates the LRU into its own copy of the receiver, so the caller's cache
  stays uninitialized: the first \<open>Insert\<close> of \<open>x\<close> returns false, and so does the second
  one, for every memory, hash and \<open>retain\<close>.
\<close>

theorem Insert_uninitialized_never_hits:
  "fst (Insert mem NewRecentWasms x retain) = False
   \<and> fst (Insert (snd (Insert mem NewRecentWasms x retain)) NewRecentWasms x retain) = False"
  by (simp add: Insert_def NewRecentWasms_def alloc_def load_def NewBasicLRU_def lru_Get_def)

lemma lru_inv_New: "0 \<le> n \<Longrightarrow> lru_inv (NewBasicLRU n)"
  by (simp add: lru_inv_def NewBasicLRU_def)

lemma lru_inv_Add: "lru_inv c \<Longrightarrow> lru_inv (lru_Add c key)"
proof -
  assume inv: "lru_inv c"
  let ?ks = "key # removeAll key (lru_keys c)"
  have d: "distinct ?ks"
    using inv by (simp add: lru_inv_def distinct_removeAll)
  have "int (length (removeAll key (lru_keys c))) \<le> int (length (lru_keys c))"
    by (simp add: length_removeAll_less_eq)
  moreover have "int (length (lru_keys c)) \<le> lru_cap c"
    using inv by (simp add: lru_inv_def)
  ultimately have "int (length (removeAll key (lru_keys c))) \<le> lru_cap c"
    by (rule order_trans)
  then have l: "int (length ?ks) \<le> lru_cap c + 1"
    by simp
  show ?thesis
  proof (cases "lru_cap c < int (length ?ks)")
    case True
    have "distinct (butlast ?ks)"
      using d by (rule distinct_butlast)
    moreover have "int (length (butlast ?ks)) \<le> lru_cap c"
      using l by simp
    ultimately show ?thesis
      using True by (simp add: lru_inv_def lru_Add_def Let_def del: butlast.simps)
  next
    case False
    with d show ?thesis
      by (simp add: lru_inv_def lru_Add_def Let_def)
  qed
qed

text \<open>
  Adding distinct new keys within the capacity evicts nothing; the keys end up in
  reverse order of insertion, the last one most recently used.
\<close>

lemma foldl_lru_Add:
  "distinct ks \<Longrightarrow> set ks \<inter> set (lru_keys c) = {} \<Longrightarrow>
   int (length ks + length (lru_keys c)) \<le> lru_cap c \<Longrightarrow>
   foldl lru_Add c ks = c\<lparr>lru_keys := rev ks @ lru_keys c\<rparr>"
proof (induction ks arbitrary: c)
  case Nil
  then show ?case by simp
next
  case (Cons k ks)
  from Cons.prems have notin: "k \<notin> set (lru_keys c)"
    by auto
  then have step: "lru_Add c k = c\<lparr>lru_keys := k # lru_keys c\<rparr>"
    using Cons.prems(3) by (simp add: lru_Add_def Let_def)
  have "foldl lru_Add (lru_Add c k) ks = (lru_Add c k)\<lparr>lru_keys := rev ks @ lru_keys (lru_Add c k)\<rparr>"
    using Cons.prems by (intro Cons.IH) (auto simp add: step)
  then show ?case
    by (simp add: step)
qed

text \<open>
  An \<open>Insert\<close> touches the LRU its receiver points to, or a newly allocated one; every
  other allocated cell stays as it is.
\<close>

lemma Insert_next_free: "next_free mem \<le> next_free (snd (Insert mem r x n))"
  by (simp add: Insert_def alloc_def store_at_def split: option.splits)

lemma Insert_frame:
  "b < next_free mem \<Longrightarrow> cache r \<noteq> Some b \<Longrightarrow> load (snd (Insert mem r x n)) b = load mem b"
  by (auto simp add: Insert_def alloc_def store_at_def load_def split: option.splits)

lemma Inserts_frame:
  "b < next_free mem \<Longrightarrow> cache r \<noteq> Some b \<Longrightarrow> load (Inserts mem r calls) b = load mem b"
proof (induction calls arbitrary: mem)
  case Nil
  then show ?case by simp
next
  case (Cons call calls)
  let ?mem1 = "snd (Insert mem r (fst call) (snd call))"
  have "b < next_free ?mem1"
    using Cons.prems(1) Insert_next_free [of mem r "fst call" "snd call"] by simp
  then have "load (Inserts ?mem1 r calls) b = load ?mem1 b"
    using Cons.prems(2) by (rule Cons.IH)
  also have "\<dots> = load mem b"
    using Cons.prems by (rule Insert_frame)
  finally show ?case by simp
qed

lemma Copy_nil: "cache p = None \<Longrightarrow> Copy mem p = (NewRecentWasms, mem)"
  by (simp add: Copy_def)

lemma Copy_initialized:
  assumes "cache p = Some a" and "lru_inv (load mem a)"
  shows "Copy mem p =
     (\<lparr>cache = Some (next_free mem)\<rparr>,
      \<lparr>cells = (cells mem)(next_free mem :=
                  \<lparr>lru_cap = lru_cap (load mem a), lru_keys = rev (lru_keys (load mem a))\<rparr>),
       next_free = Suc (next_free mem)\<rparr>)"
proof -
  have "foldl lru_Add (NewBasicLRU (lru_Capacity (load mem a))) (lru_Keys (load mem a))
      = (NewBasicLRU (lru_Capacity (load mem a)))
          \<lparr>lru_keys := rev (lru_Keys (load mem a)) @ lru_keys (NewBasicLRU (lru_Capacity (load mem a)))\<rparr>"
    using assms(2)
    by (intro foldl_lru_Add) (simp_all add: lru_inv_def lru_Keys_def lru_Capacity_def NewBasicLRU_def)
  then show ?thesis
    using assms(1)
    by (simp add: Copy_def alloc_def NewBasicLRU_def lru_Keys_def lru_Capacity_def)
qed

text \<open>
  C9: for every recency cache \<open>p\<close> (uninitialized, or pointing to an allocated LRU that
  satisfies the LRU invariant), \<open>Copy\<close> returns a cache with the same members and the
  same capacity, and leaves \<open>p\<close> as it was. No sequence of \<open>Insert\<close> calls on the copy
  changes the members of \<open>p\<close>, and no sequence of \<open>Insert\<close> calls on \<open>p\<close> changes the
  members of the copy.
\<close>

theorem Copy_independent:
  assumes "allocated mem (cache p)" and "\<forall>a. cache p = Some a \<longrightarrow> lru_inv (load mem a)"
  shows "\<exists>q mem1. Copy mem p = (q, mem1)
     \<and> members mem1 q = members mem p \<and> capacity mem1 q = capacity mem p
     \<and> members mem1 p = members mem p \<and> capacity mem1 p = capacity mem p
     \<and> (\<forall>calls. members (Inserts mem1 q calls) p = members mem p)
     \<and> (\<forall>calls. members (Inserts mem1 p calls) q = members mem1 q)"
proof (cases "cache p")
  case None
  then show ?thesis
    by (simp add: Copy_nil members_def capacity_def NewRecentWasms_def)
next
  case (Some a)
  define b where "b = next_free mem"
  define mem1 where "mem1 = \<lparr>cells = (cells mem)(b :=
      \<lparr>lru_cap = lru_cap (load mem a), lru_keys = rev (lru_keys (load mem a))\<rparr>),
      next_free = Suc b\<rparr>"
  define q where "q = \<lparr>cache = Some b\<rparr>"
  from Some assms have a: "a < b" and inv: "lru_inv (load mem a)"
    by (simp_all add: allocated_def b_def)
  have copy: "Copy mem p = (q, mem1)"
    using Copy_initialized [OF Some inv] by (simp add: q_def mem1_def b_def)
  have at_a: "load mem1 a = load mem a"
    using a by (simp add: mem1_def load_def)
  have at_b: "load mem1 b = \<lparr>lru_cap = lru_cap (load mem a), lru_keys = rev (lru_keys (load mem a))\<rparr>"
    by (simp add: mem1_def load_def)
  have m1: "members mem1 q = members mem p" "capacity mem1 q = capacity mem p"
    using Some by (simp_all add: members_def capacity_def q_def at_b lru_Keys_def lru_Capacity_def)
  have m2: "members mem1 p = members mem p" "capacity mem1 p = capacity mem p"
    using Some by (simp_all add: members_def capacity_def at_a)
  have m3: "members (Inserts mem1 q calls) p = members mem p" for calls
  proof -
    have "load (Inserts mem1 q calls) a = load mem1 a"
      using a by (intro Inserts_frame) (simp_all add: mem1_def q_def)
    then show ?thesis
      using Some by (simp add: members_def at_a)
  qed
  have m4: "members (Inserts mem1 p calls) q = members mem1 q" for calls
  proof -
    have "load (Inserts mem1 p calls) b = load mem1 b"
      using a Some by (intro Inserts_frame) (simp_all add: mem1_def)
    then show ?thesis
      by (simp add: members_def q_def)
  qed
  from copy m1 m2 m3 m4 show ?thesis
    by blast
qed

theorem Copy_independent_witness:
  "\<exists>q mem1. Copy \<lparr>cells = (\<lambda>a. \<lparr>lru_cap = 2, lru_keys = [5, 3]\<rparr>), next_free = 1\<rparr> \<lparr>cache = Some 0\<rparr> = (q, mem1)
     \<and> members mem1 q = {3, 5} \<and> capacity mem1 q = Some 2
     \<and> members (Inserts mem1 q [(9, 2), (8, 2)]) \<lparr>cache = Some 0\<rparr> = {3, 5}
     \<and> members (Inserts mem1 \<lparr>cache = Some 0\<rparr> [(9, 2), (8, 2)]) q = {3, 5}"
proof -
  let ?mem = "\<lparr>cells = (\<lambda>a. \<lparr>lru_cap = 2, lru_keys = [5, 3]\<rparr>), next_free = 1\<rparr> :: BasicLRU store"
  let ?p = "\<lparr>cache = Some 0\<rparr>"
  have "allocated ?mem (cache ?p)"
    by (simp add: allocated_def)
  moreover have "\<forall>a. cache ?p = Some a \<longrightarrow> lru_inv (load ?mem a)"
    by (simp add: lru_inv_def load_def)
  ultimately obtain q mem1 where c: "Copy ?mem ?p = (q, mem1)"
     "members mem1 q = members ?mem ?p" "capacity mem1 q = capacity ?mem ?p"
     "\<forall>calls. members (Inserts mem1 q calls) ?p = members ?mem ?p"
     "\<forall>calls. members (Inserts mem1 ?p calls) q = members mem1 q"
    using Copy_independent [of ?mem ?p] by blast
  have "members ?mem ?p = {3, 5}" "capacity ?mem ?p = Some 2"
    by (auto simp add: members_def capacity_def load_def lru_Keys_def lru_Capacity_def)
  with c(1-3) c(4) [rule_format, of "[(9, 2), (8, 2)]"] c(5) [rule_format, of "[(9, 2), (8, 2)]"]
  show ?thesis
    by (simp del: Inserts.simps)
qed

section \<open>Properties of the storage iteration\<close>

text \<open>One step of the loop under a recording callback, for a dirty key and for a persisted one.\<close>

lemma storage_loop_dirty:
  assumes "map_index (dirtyStorage so) (BytesToHash dec (trie_GetKey s itKey)) = Some v"
  shows "storage_loop dec s so (recording continue) c ((itKey, itValue) # rest) =
     (if continue c (BytesToHash dec (trie_GetKey s itKey)) v
      then storage_loop dec s so (recording continue)
             (c @ [(BytesToHash dec (trie_GetKey s itKey), v)]) rest
      else (None, c @ [(BytesToHash dec (trie_GetKey s itKey), v)]))"
  using assms by (simp add: recording_def Let_def)

lemma storage_loop_persisted:
  assumes "map_index (dirtyStorage so) (BytesToHash dec (trie_GetKey s itKey)) = None"
    and "0 < length itValue" and "rlp_Split dec itValue = Inr content"
  shows "storage_loop dec s so (recording continue) c ((itKey, itValue) # rest) =
     (if continue c (BytesToHash dec (trie_GetKey s itKey)) (BytesToHash dec content)
      then storage_loop dec s so (recording continue)
             (c @ [(BytesToHash dec (trie_GetKey s itKey), BytesToHash dec content)]) rest
      else (None, c @ [(BytesToHash dec (trie_GetKey s itKey), BytesToHash dec content)]))"
  using assms by (simp add: recording_def Let_def)

text \<open>
  What the loop visits extends what was visited before it, and a pair on which the
  callback answers false is the last one: nothing is visited after it and the loop
  returns nil.
\<close>

lemma storage_loop_stops:
  "storage_loop dec s so (recording continue) c leaves = (e, vs) \<Longrightarrow>
   \<exists>ws. vs = c @ ws \<and>
     (\<forall>us k v rest. ws = us @ (k, v) # rest \<longrightarrow> \<not> continue (c @ us) k v \<longrightarrow> rest = [] \<and> e = None)"
proof (induction leaves arbitrary: c)
  case Nil
  then show ?case by simp
next
  case (Cons leaf leaves)
  obtain itKey itValue where leaf: "leaf = (itKey, itValue)"
    by (cases leaf)
  let ?key = "BytesToHash dec (trie_GetKey s itKey)"
  have visit: "\<exists>ws. vs = c @ ws \<and>
     (\<forall>us k v rest. ws = us @ (k, v) # rest \<longrightarrow> \<not> continue (c @ us) k v \<longrightarrow> rest = [] \<and> e = None)"
    if run: "(if continue c ?key x
              then storage_loop dec s so (recording continue) (c @ [(?key, x)]) leaves
              else (None, c @ [(?key, x)])) = (e, vs)" for x
  proof (cases "continue c ?key x")
    case False
    with run have "vs = c @ [(?key, x)]" "e = None"
      by simp_all
    then show ?thesis
      by (auto simp add: append_eq_Cons_conv Cons_eq_append_conv)
  next
    case True
    with run have "storage_loop dec s so (recording continue) (c @ [(?key, x)]) leaves = (e, vs)"
      by simp
    from Cons.IH [OF this] obtain ws where ws: "vs = (c @ [(?key, x)]) @ ws"
      "\<And>us k v rest. ws = us @ (k, v) # rest \<Longrightarrow> \<not> continue ((c @ [(?key, x)]) @ us) k v
         \<Longrightarrow> rest = [] \<and> e = None"
      by blast
    have "rest = [] \<and> e = None"
      if "(?key, x) # ws = us @ (k, v) # rest" "\<not> continue (c @ us) k v" for us k v rest
    proof (cases us)
      case Nil
      with that True show ?thesis by simp
    next
      case (Cons u us')
      with that have "ws = us' @ (k, v) # rest" "\<not> continue ((c @ [(?key, x)]) @ us') k v"
        by simp_all
      then show ?thesis
        by (rule ws(2))
    qed
    then have "\<forall>us k v rest. (?key, x) # ws = us @ (k, v) # rest \<longrightarrow> \<not> continue (c @ us) k v
        \<longrightarrow> rest = [] \<and> e = None"
      by blast
    moreover have "vs = c @ (?key, x) # ws"
      using ws(1) by simp
    ultimately show ?thesis
      by blast
  qed
  show ?case
  proof (cases "map_index (dirtyStorage so) ?key")
    case (Some v)
    from Cons.prems show ?thesis
      unfolding leaf storage_loop_dirty [OF Some] by (rule visit)
  next
    case None
    show ?thesis
    proof (cases "0 < length itValue")
      case False
      with None Cons.prems have "storage_loop dec s so (recording continue) c leaves = (e, vs)"
        by (simp add: leaf)
      then show ?thesis
        by (rule Cons.IH)
    next
      case True
      show ?thesis
      proof (cases "rlp_Split dec itValue")
        case (Inl err)
        with None True Cons.prems have "vs = c"
          by (simp add: leaf)
        then show ?thesis by simp
      next
        case (Inr content)
        from Cons.prems show ?thesis
          unfolding leaf storage_loop_persisted [OF None True Inr] by (rule visit)
      qed
    qed
  qed
qed

text \<open>
  C7, as the claim states it, fails: the keys come from \<open>s.trie.GetKey\<close>, which gives
  nil for a hashed key whose preimage it does not have. Then every leaf is visited
  under the zero hash: the dirty value of key 1 is never visited, and the persisted
  value it should have replaced is.
\<close>

theorem forEachStorage_no_preimage_counterexample:
  "map_index (dirtyStorage example_account) 1 = Some 0x11
   \<and> forEachStorage example_decoders
        (example_StateDB\<lparr>getStateObject := (\<lambda>addr. Some example_account),
                         trie_GetKey := (\<lambda>hashed. [])\<rparr>) 5
        (recording (\<lambda>seen k v. True)) [] = (None, [(0, 0xAB), (0, 0x0A)])"
  by (simp add: forEachStorage_def recording_def example_account_def example_decoders_def
      rlp_readKind_def map_index_def)

text \<open>
  C7 (amended): when \<open>s.trie.GetKey\<close> recovers the keys \<open>k1\<close> and \<open>k2\<close> of the two
  leaves, on an account whose dirty storage has \<open>k1: v1\<close> and not \<open>k2\<close>, and whose trie
  has the leaves of \<open>k1\<close> (with the encoding of some \<open>v0\<close>) and of \<open>k2\<close> (with a non-empty
  encoding whose content decodes to \<open>v2\<close>), in either order, \<open>forEachStorage\<close> with a
  callback that always continues visits exactly \<open>(k1, v1)\<close> and \<open>(k2, v2)\<close>, each once,
  and returns nil; with a callback that answers false it visits the first pair only.
  For every account and every callback, a pair on which the callback returns false is
  the last pair visited, and the call returns nil.
\<close>

theorem forEachStorage_dirty_wins:
  "(getStateObject s addr = Some so \<longrightarrow> getTrie so = Inr (Trie (Inr leaves)) \<longrightarrow>
    map_index (dirtyStorage so) k1 = Some v1 \<longrightarrow> map_index (dirtyStorage so) k2 = None \<longrightarrow>
    BytesToHash dec (trie_GetKey s K1) = k1 \<longrightarrow> BytesToHash dec (trie_GetKey s K2) = k2 \<longrightarrow>
    0 < length e2 \<longrightarrow> rlp_Split dec e2 = Inr c2 \<longrightarrow> BytesToHash dec c2 = v2 \<longrightarrow>
      (leaves = [(K1, e0), (K2, e2)] \<longrightarrow>
         forEachStorage dec s addr (recording (\<lambda>seen k v. True)) [] = (None, [(k1, v1), (k2, v2)])
         \<and> forEachStorage dec s addr (recording (\<lambda>seen k v. False)) [] = (None, [(k1, v1)]))
      \<and> (leaves = [(K2, e2), (K1, e0)] \<longrightarrow>
         forEachStorage dec s addr (recording (\<lambda>seen k v. True)) [] = (None, [(k2, v2), (k1, v1)])
         \<and> forEachStorage dec s addr (recording (\<lambda>seen k v. False)) [] = (None, [(k2, v2)])))
   \<and> (\<forall>e vs us k v rest. forEachStorage dec s addr (recording continue) [] = (e, vs) \<longrightarrow>
         vs = us @ (k, v) # rest \<longrightarrow> \<not> continue us k v \<longrightarrow> rest = [] \<and> e = None)"
proof (intro conjI allI impI)
  fix e vs us k v rest
  assume run: "forEachStorage dec s addr (recording continue) [] = (e, vs)"
    and vs: "vs = us @ (k, v) # rest" and stop: "\<not> continue us k v"
  have "rest = [] \<and> e = None"
  proof (cases "getStateObject s addr")
    case None
    with run vs show ?thesis by (simp add: forEachStorage_def)
  next
    case (Some so')
    show ?thesis
    proof (cases "getTrie so'")
      case (Inl err)
      with Some run vs show ?thesis by (simp add: forEachStorage_def)
    next
      case (Inr tr)
      show ?thesis
      proof (cases "NodeIterator tr")
        case (Inl err)
        with Some Inr run vs show ?thesis by (simp add: forEachStorage_def)
      next
        case inr: (Inr lv)
        with Some Inr run have "storage_loop dec s so' (recording continue) [] lv = (e, vs)"
          by (simp add: forEachStorage_def)
        from storage_loop_stops [OF this] vs stop show ?thesis
          by simp
      qed
    qed
  qed
  then show "rest = []" and "e = None" by simp_all
qed (simp_all add: forEachStorage_def recording_def)

theorem forEachStorage_dirty_wins_witness:
  "forEachStorage example_decoders
      (example_StateDB\<lparr>getStateObject := (\<lambda>addr. Some example_account),
                       trie_GetKey := example_preimages\<rparr>) 5
      (recording (\<lambda>seen k v. True)) [] = (None, [(2, 0xAB), (1, 0x11)])
   \<and> forEachStorage example_decoders
      (example_StateDB\<lparr>getStateObject := (\<lambda>addr. Some example_account),
                       trie_GetKey := example_preimages\<rparr>) 5
      (recording (\<lambda>seen k v. False)) [] = (None, [(2, 0xAB)])"
proof -
  have split: "rlp_Split example_decoders [0x81, 0xAB] = Inr [0xAB]"
    by (simp add: example_decoders_def rlp_readKind_def)
  have hashes: "BytesToHash example_decoders [1] = 1" "BytesToHash example_decoders [2] = 2"
    "BytesToHash example_decoders [0xAB] = 0xAB"
    by (simp_all add: example_decoders_def)
  show ?thesis
    using forEachStorage_dirty_wins
      [where s = "example_StateDB\<lparr>getStateObject := (\<lambda>addr. Some example_account),
                                  trie_GetKey := example_preimages\<rparr>"
         and addr = 5 and so = example_account and dec = example_decoders
         and leaves = "[([0x40, 0x57], [0x81, 0xAB]), ([0xB1, 0x0E], [0x0A])]"
         and ?k1.0 = 1 and ?v1.0 = "0x11" and ?k2.0 = 2 and ?v2.0 = "0xAB"
         and ?K1.0 = "[0xB1, 0x0E]" and ?K2.0 = "[0x40, 0x57]"
         and ?e0.0 = "[0x0A]" and ?e2.0 = "[0x81, 0xAB]" and ?c2.0 = "[0xAB]"]
      split hashes
    by (simp add: example_account_def example_preimages_def map_index_def)
qed

end
